theory Spec2Isabelle
  imports Main "HOL-Library.AList" "HOL-Library.Multiset"
begin

section \<open>JavaScript values, Dates and errors\<close>

text \<open>
  The repository is a delayed-task scheduler in JavaScript: \<^verbatim>\<open>Task.js\<close> (the unit of
  work), \<^verbatim>\<open>TaskList.js\<close> (the registry and its timeline) and \<^verbatim>\<open>Agenda.js\<close> (the
  scheduler with its single timer).

  A JavaScript number is modelled by what the code looks at: whether it is an integer
  (\<^verbatim>\<open>Number.isInteger\<close>) and, if so, which one. \<open>NonInteger\<close> stands for any finite
  number with a fractional part.
\<close>

datatype number = NaN | PosInfinity | NegInfinity | Integral int | NonInteger

datatype jsval =
    Undefined | Null | Boolean bool | Number number | Str string
  | DateObject nat | FunctionObject nat | OtherObject nat

datatype error = TypeError | RangeError

text \<open>
  A Date is an object with identity: two holders of the same Date see each other's
  \<^verbatim>\<open>setTime\<close>. The heap maps the address of each Date to its time value in
  milliseconds; \<open>None\<close> is the time value NaN of an Invalid Date. A new Date takes the
  next free address. Time values are integers, and the integer arithmetic below is the
  double arithmetic of the source as long as a result is at most \<open>2 ^ 53\<close> in
  magnitude (beyond that the source rounds to a double). A time value is at most
  8640000000000000 in magnitude, so the difference of two Dates is in that range unless
  they are more than \<open>2 ^ 53\<close> ms apart; \<open>exactDelays\<close> below says that no stored
  task has such Dates.
\<close>

type_synonym heap = "int option list"

fun TimeClip :: "int option \<Rightarrow> int option" where
  "TimeClip None = None"
| "TimeClip (Some t) = (if \<bar>t\<bar> > 8640000000000000 then None else Some t)"

definition getTime :: "heap \<Rightarrow> nat \<Rightarrow> int option" where
  "getTime h r = (if r < length h then h ! r else None)"

definition new_Date :: "heap \<Rightarrow> int option \<Rightarrow> nat \<times> heap" where
  "new_Date h tv = (length h, h @ [TimeClip tv])"

definition setTime :: "heap \<Rightarrow> nat \<Rightarrow> int \<Rightarrow> heap" where
  "setTime h r t = h[r := TimeClip (Some t)]"

text \<open>Subtraction, addition and \<^verbatim>\<open>Math.max\<close> on time values: NaN is contagious.\<close>

fun js_minus :: "int option \<Rightarrow> int option \<Rightarrow> int option" where
  "js_minus (Some a) (Some b) = Some (a - b)"
| "js_minus _ _ = None"

fun js_plus :: "int option \<Rightarrow> int option \<Rightarrow> int option" where
  "js_plus (Some a) (Some b) = Some (a + b)"
| "js_plus _ _ = None"

fun Math_max :: "int option \<Rightarrow> int option \<Rightarrow> int option" where
  "Math_max (Some a) (Some b) = Some (max a b)"
| "Math_max _ _ = None"

fun js_min :: "int option \<Rightarrow> int option \<Rightarrow> int option" where
  "js_min (Some a) (Some b) = Some (min a b)"
| "js_min _ _ = None"

text \<open>\<^verbatim>\<open>Math.min(...keys)\<close> of a non-empty array (the loop calls it on nothing else).\<close>

fun Math_min :: "int option list \<Rightarrow> int option" where
  "Math_min [x] = x"
| "Math_min (x # y # ys) = js_min x (Math_min (y # ys))"

definition instanceof_Date :: "jsval \<Rightarrow> bool" where
  "instanceof_Date v = (case v of DateObject r \<Rightarrow> True | _ \<Rightarrow> False)"

definition instanceof_Function :: "jsval \<Rightarrow> bool" where
  "instanceof_Function v = (case v of FunctionObject f \<Rightarrow> True | _ \<Rightarrow> False)"

definition Number_isInteger :: "jsval \<Rightarrow> bool" where
  "Number_isInteger v = (case v of Number (Integral i) \<Rightarrow> True | _ \<Rightarrow> False)"

section \<open>Task (Task.js)\<close>

text \<open>
  The file \<^verbatim>\<open>src/src/Agenda.js\<close> holds \<^verbatim>\<open>Agenda.js\<close> (lines 1 to 209) and two copies of
  \<^verbatim>\<open>Task.js\<close>. The model follows the second copy (lines 356 to 573), the one with
  \<^verbatim>\<open>#name = null\<close> and \<^verbatim>\<open>#description\<close>. In the first copy (lines 209 to 356) the name
  starts as the empty string, \<^verbatim>\<open>setName\<close> stores its argument as it is, and there is no
  description; the constructors and \<^verbatim>\<open>getCopy\<close> are the same.
\<close>

text \<open>
  The private fields of the class. \<open>t_name\<close> and \<open>t_description\<close> start as
  \<^verbatim>\<open>null\<close> (\<open>None\<close>). The two Date fields hold the addresses of Date objects. The
  payload function is an opaque function object. The payload-argument array is held by
  value: every assignment to \<^verbatim>\<open>#payloadArguments\<close> in the source is a fresh spread
  \<^verbatim>\<open>[...xs]\<close>, so no two Tasks share one array object.
\<close>

record Task =
  t_id :: string
  t_name :: "string option"
  t_description :: "string option"
  t_creationTime :: nat
  t_executionTime :: nat
  t_payloadFunction :: nat
  t_payloadArguments :: "jsval list"

definition createTaskWithExecutionTime ::
  "int \<Rightarrow> heap \<Rightarrow> jsval \<Rightarrow> jsval \<Rightarrow> jsval list \<Rightarrow> error + (Task \<times> heap)" where
  "createTaskWithExecutionTime now h executionTime executionFunction executionArguments =
     (if \<not> instanceof_Date executionTime then Inl TypeError
      else if \<not> instanceof_Function executionFunction then Inl TypeError
      else (case (executionTime, executionFunction) of
              (DateObject e, FunctionObject f) \<Rightarrow>
                (let (c, h') = new_Date h (Some now)
                 in Inr (\<lparr>t_id = [], t_name = None, t_description = None,
                          t_creationTime = c, t_executionTime = e,
                          t_payloadFunction = f,
                          t_payloadArguments = executionArguments\<rparr>, h'))
            | _ \<Rightarrow> Inl TypeError))"

definition createTaskWithExecutionDelay ::
  "int \<Rightarrow> heap \<Rightarrow> jsval \<Rightarrow> jsval \<Rightarrow> jsval list \<Rightarrow> error + (Task \<times> heap)" where
  "createTaskWithExecutionDelay now h executionDelay executionFunction executionArguments =
     (if \<not> Number_isInteger executionDelay then Inl TypeError
      else if \<not> instanceof_Function executionFunction then Inl TypeError
      else (case (executionDelay, executionFunction) of
              (Number (Integral d), FunctionObject f) \<Rightarrow>
                (let (c, h1) = new_Date h (Some now);
                     (e, h2) = new_Date h1 (js_plus (getTime h1 c) (Some d))
                 in Inr (\<lparr>t_id = [], t_name = None, t_description = None,
                          t_creationTime = c, t_executionTime = e,
                          t_payloadFunction = f,
                          t_payloadArguments = executionArguments\<rparr>, h2))
            | _ \<Rightarrow> Inl TypeError))"

definition Task_getCopy :: "Task \<Rightarrow> Task" where
  "Task_getCopy this =
     \<lparr>t_id = t_id this, t_name = t_name this, t_description = t_description this,
      t_creationTime = t_creationTime this, t_executionTime = t_executionTime this,
      t_payloadFunction = t_payloadFunction this,
      t_payloadArguments = t_payloadArguments this\<rparr>"

definition setId :: "string \<Rightarrow> Task \<Rightarrow> Task" where
  "setId newId this = this\<lparr>t_id := newId\<rparr>"

text \<open>\<^verbatim>\<open>setName\<close> on its documented arguments: \<^verbatim>\<open>null\<close> or a string.\<close>

definition setName :: "string option \<Rightarrow> Task \<Rightarrow> Task" where
  "setName newName this = this\<lparr>t_name := newName\<rparr>"

definition getTimeTillExecution :: "int \<Rightarrow> heap \<Rightarrow> Task \<Rightarrow> int option" where
  "getTimeTillExecution nowTime h this =
     Math_max (js_minus (getTime h (t_executionTime this)) (Some nowTime)) (Some 0)"

section \<open>TaskList (TaskList.js)\<close>

text \<open>
  The sources hold two copies of \<^verbatim>\<open>TaskList.js\<close>: \<^verbatim>\<open>src/src/TaskList.js\<close> and
  \<^verbatim>\<open>src/unnamed/part_004\<close>. They differ in two places. In \<^verbatim>\<open>organizeTasks\<close> the first
  computes the delay of a task as \<^verbatim>\<open>executionTime - creationTime\<close> (line 75), the second as
  \<^verbatim>\<open>Math.max(executionTime - creationTime, 0)\<close> (line 80). In the three \<^verbatim>\<open>find...\<close>
  methods the first calls \<^verbatim>\<open>organizeTasks\<close> on the result, the second has the call
  commented out. Every function below that depends on the difference takes the copy as
  its first argument.
\<close>

datatype copy = TaskList_js | part_004

text \<open>
  \<^verbatim>\<open>#tasks\<close> is a plain object used as a dictionary from id to Task. It is modelled as
  the list of its own properties in enumeration order (the order of \<^verbatim>\<open>Object.keys\<close>,
  \<^verbatim>\<open>Object.values\<close> and \<^verbatim>\<open>Object.entries\<close>): the keys that are array indices first, in
  ascending numeric order, then the other keys in the order of their creation.
  \<^verbatim>\<open>#timeline\<close> is an array of arrays of ids.
\<close>

record TaskList =
  tasks :: "(string \<times> Task) list"
  timeline :: "string list list"

definition isDigit :: "char \<Rightarrow> bool" where
  "isDigit c = (48 \<le> (of_char c :: int) \<and> (of_char c :: int) \<le> 57)"

definition arrayIndex :: "string \<Rightarrow> int option" where
  "arrayIndex s =
     (if s \<noteq> [] \<and> list_all isDigit s \<and> (s = ''0'' \<or> hd s \<noteq> CHR ''0'')
      then (let n = foldl (\<lambda>a c. 10 * a + (of_char c - 48)) 0 s
            in if n < 4294967295 then Some n else None)
      else None)"

fun insertIndex :: "int \<Rightarrow> string \<Rightarrow> 'v \<Rightarrow> (string \<times> 'v) list \<Rightarrow> (string \<times> 'v) list" where
  "insertIndex n k v [] = [(k, v)]"
| "insertIndex n k v (p # ps) =
     (case arrayIndex (fst p) of
        Some m \<Rightarrow> if m < n then p # insertIndex n k v ps else (k, v) # p # ps
      | None \<Rightarrow> (k, v) # p # ps)"

text \<open>
  The assignment \<^verbatim>\<open>obj[k] = v\<close> for the keys the code assigns: ids, which are never
  \<^verbatim>\<open>"__proto__"\<close>.
\<close>

definition setProperty :: "string \<Rightarrow> 'v \<Rightarrow> (string \<times> 'v) list \<Rightarrow> (string \<times> 'v) list" where
  "setProperty k v ps =
     (if map_of ps k \<noteq> None then AList.update k v ps
      else (case arrayIndex k of
              Some n \<Rightarrow> insertIndex n k v ps
            | None \<Rightarrow> ps @ [(k, v)]))"

text \<open>
  The read \<^verbatim>\<open>obj[k]\<close>: an own property, or else a member inherited from
  \<^verbatim>\<open>Object.prototype\<close> (none of them \<^verbatim>\<open>null\<close>), or else \<^verbatim>\<open>undefined\<close>.
\<close>

definition Object_prototype :: "string list" where
  "Object_prototype =
     [''constructor'', ''__defineGetter__'', ''__defineSetter__'', ''hasOwnProperty'',
      ''__lookupGetter__'', ''__lookupSetter__'', ''isPrototypeOf'',
      ''propertyIsEnumerable'', ''toString'', ''valueOf'', ''__proto__'',
      ''toLocaleString'']"

datatype 'v property = Own 'v | Inherited | Absent

definition getProperty :: "(string \<times> 'v) list \<Rightarrow> string \<Rightarrow> 'v property" where
  "getProperty ps k =
     (case map_of ps k of
        Some v \<Rightarrow> Own v
      | None \<Rightarrow> if List.member Object_prototype k then Inherited else Absent)"

text \<open>
  \<^verbatim>\<open>randomBytes(5).toString("hex")\<close>: ten lower-case hexadecimal digits. The random
  source is the list of the numbers it will return, one per call; the digits of a number
  are its last ten hexadecimal digits, the most significant first.
\<close>

definition hexDigit :: "int \<Rightarrow> char" where
  "hexDigit d = ''0123456789abcdef'' ! nat d"

definition randomBytes_hex :: "int \<Rightarrow> string" where
  "randomBytes_hex r =
     map (\<lambda>p. hexDigit ((r div p) mod 16))
       [68719476736, 4294967296, 268435456, 16777216, 1048576, 65536, 4096, 256, 16, 1]"

text \<open>
  \<^verbatim>\<open>#generateUniqueID\<close> draws until the id is no key of \<^verbatim>\<open>#tasks\<close>. \<open>None\<close>: the
  source never gave a fresh id, the loop does not return.
\<close>

fun generateUniqueID :: "(string \<times> Task) list \<Rightarrow> int list \<Rightarrow> (string \<times> int list) option" where
  "generateUniqueID ts [] = None"
| "generateUniqueID ts (r # rs) =
     (let output = randomBytes_hex r; keys = map fst ts
      in if \<not> List.member keys output then Some (output, rs)
         else generateUniqueID ts rs)"

definition taskCount :: "TaskList \<Rightarrow> nat" where
  "taskCount this = length (map fst (tasks this))"

definition timelineLength :: "TaskList \<Rightarrow> nat" where
  "timelineLength this = length (timeline this)"

subsection \<open>organizeTasks\<close>

definition taskDelay :: "copy \<Rightarrow> heap \<Rightarrow> Task \<Rightarrow> int option" where
  "taskDelay cp h task =
     (let d = js_minus (getTime h (t_executionTime task)) (getTime h (t_creationTime task))
      in case cp of TaskList_js \<Rightarrow> d | part_004 \<Rightarrow> Math_max d (Some 0))"

text \<open>
  The object \<^verbatim>\<open>delays\<close>: from a delay to the array of the ids with that delay. Its
  keys are the delays as strings, read back with \<^verbatim>\<open>Number(key)\<close>; the model keeps the
  number itself as key (a number and its string determine each other). The order of
  the keys has no effect: the second loop takes them by \<^verbatim>\<open>Math.min\<close>.
\<close>

fun collectDelays ::
  "copy \<Rightarrow> heap \<Rightarrow> Task list \<Rightarrow> (int option \<times> string list) list
     \<Rightarrow> (int option \<times> string list) list" where
  "collectDelays cp h [] delays = delays"
| "collectDelays cp h (task # rest) delays =
     (let delay = taskDelay cp h task; tid = t_id task
      in case map_of delays delay of
           None \<Rightarrow> collectDelays cp h rest (AList.update delay [tid] delays)
         | Some elements \<Rightarrow>
             collectDelays cp h rest (AList.update delay (elements @ [tid]) delays))"

lemma js_min_cases: "js_min a b = a \<or> js_min a b = b"
  by (cases a; cases b) (auto simp: min_def)

lemma Math_min_in: "ks \<noteq> [] \<Longrightarrow> Math_min ks \<in> set ks"
proof (induction ks rule: Math_min.induct)
  case (2 x y ys)
  then show ?case
    using js_min_cases [of x "Math_min (y # ys)"] by auto
qed auto

lemma length_delete_Math_min:
  "ds \<noteq> [] \<Longrightarrow> length (AList.delete (Math_min (map fst ds)) ds) < length ds"
proof -
  assume ne: "ds \<noteq> []"
  then have "Math_min (map fst ds) \<in> fst ` set ds"
    using Math_min_in [of "map fst ds"] by simp
  then obtain p where p: "p \<in> set ds" "fst p = Math_min (map fst ds)"
    by auto
  have "length (filter (\<lambda>q. fst q \<noteq> Math_min (map fst ds)) ds) < length ds"
    by (rule length_filter_less [OF p(1)]) (simp add: p(2))
  moreover have "AList.delete (Math_min (map fst ds)) ds
      = filter (\<lambda>q. fst q \<noteq> Math_min (map fst ds)) ds"
    by (auto simp: AList.delete_eq intro: filter_cong)
  ultimately show ?thesis by simp
qed

text \<open>
  The \<^verbatim>\<open>while (cont)\<close> loop: take the smallest key, push its ids if there are any,
  delete the key.
\<close>

function drainDelays ::
  "(int option \<times> string list) list \<Rightarrow> string list list \<Rightarrow> string list list" where
  "drainDelays [] newTimeline = newTimeline"
| "drainDelays (p # ps) newTimeline =
     (let smallestDelay = Math_min (map fst (p # ps))
      in drainDelays (AList.delete smallestDelay (p # ps))
           (case map_of (p # ps) smallestDelay of
              Some ids \<Rightarrow> if length ids > 0 then newTimeline @ [ids] else newTimeline
            | None \<Rightarrow> newTimeline))"
  by pat_completeness auto
termination
proof (relation "measure (\<lambda>(ds, acc). length ds)")
  show "wf (measure (\<lambda>(ds, acc). length ds))" by simp
next
  fix p :: "int option \<times> string list" and ps newTimeline x
  assume "x = Math_min (map fst (p # ps))"
  then show "((AList.delete x (p # ps),
        case map_of (p # ps) x of None \<Rightarrow> newTimeline
        | Some ids \<Rightarrow> if 0 < length ids then newTimeline @ [ids] else newTimeline),
       p # ps, newTimeline) \<in> measure (\<lambda>(ds, acc). length ds)"
    using length_delete_Math_min [of "p # ps"] by simp
qed

definition organizeTasks :: "copy \<Rightarrow> heap \<Rightarrow> TaskList \<Rightarrow> TaskList" where
  "organizeTasks cp h this =
     (let delays = collectDelays cp h (map snd (tasks this)) [];
          newTimeline = drainDelays delays []
      in this\<lparr>timeline := newTimeline\<rparr>)"

text \<open>
  The constructor \<^verbatim>\<open>new TaskList(...tasks)\<close>, \<^verbatim>\<open>#addTask_prv\<close> and \<^verbatim>\<open>addTasks\<close>. An
  argument is a Task or any other value (skipped by the \<^verbatim>\<open>instanceof\<close> test). The
  rest parameter \<^verbatim>\<open>newTasks\<close> is always an array, so the test \<^verbatim>\<open>newTasks == null\<close> of
  \<^verbatim>\<open>addTasks\<close> never holds. \<open>None\<close>: an id loop did not return.
\<close>

datatype argument = TaskObject Task | NotATask jsval

definition addTask_prv ::
  "int list \<Rightarrow> Task \<Rightarrow> (string \<times> Task) list \<Rightarrow> ((string \<times> Task) list \<times> int list) option" where
  "addTask_prv rnd newTask ts =
     (let newEleTask = Task_getCopy newTask
      in case generateUniqueID ts rnd of
           None \<Rightarrow> None
         | Some (newId, rnd') \<Rightarrow> Some (setProperty newId (setId newId newEleTask) ts, rnd'))"

fun addTasks_loop ::
  "int list \<Rightarrow> argument list \<Rightarrow> (string \<times> Task) list \<Rightarrow> bool
     \<Rightarrow> ((string \<times> Task) list \<times> bool) option" where
  "addTasks_loop rnd [] ts changed = Some (ts, changed)"
| "addTasks_loop rnd (NotATask v # newTasks) ts changed = addTasks_loop rnd newTasks ts changed"
| "addTasks_loop rnd (TaskObject newTask # newTasks) ts changed =
     (case addTask_prv rnd newTask ts of
        None \<Rightarrow> None
      | Some (ts', rnd') \<Rightarrow> addTasks_loop rnd' newTasks ts' True)"

definition TaskList_empty :: TaskList where
  "TaskList_empty = \<lparr>tasks = [], timeline = []\<rparr>"

definition TaskList_new :: "copy \<Rightarrow> heap \<Rightarrow> int list \<Rightarrow> argument list \<Rightarrow> TaskList option" where
  "TaskList_new cp h rnd newTasks =
     (case addTasks_loop rnd newTasks [] False of
        None \<Rightarrow> None
      | Some (ts, changed) \<Rightarrow>
          (let this = \<lparr>tasks = ts, timeline = []\<rparr>
           in Some (if taskCount this > 0 then organizeTasks cp h this else this)))"

definition addTasks ::
  "copy \<Rightarrow> heap \<Rightarrow> int list \<Rightarrow> argument list \<Rightarrow> TaskList \<Rightarrow> (bool \<times> TaskList) option" where
  "addTasks cp h rnd newTasks this =
     (case addTasks_loop rnd newTasks (tasks this) False of
        None \<Rightarrow> None
      | Some (ts, changed) \<Rightarrow>
          if changed then Some (True, organizeTasks cp h (this\<lparr>tasks := ts\<rparr>))
          else Some (False, this\<lparr>tasks := ts\<rparr>))"

text \<open>
  \<^verbatim>\<open>removeTasks(...taskIds)\<close> uses each argument as a property key of \<^verbatim>\<open>#tasks\<close>: a
  string is its own key, an array of strings has the key \<^verbatim>\<open>array.toString()\<close>, its
  elements joined by commas.
\<close>

datatype idArgument = IdString string | IdArray "string list"

fun Array_toString :: "string list \<Rightarrow> string" where
  "Array_toString [] = []"
| "Array_toString [x] = x"
| "Array_toString (x # y # ys) = x @ '','' @ Array_toString (y # ys)"

fun toPropertyKey :: "idArgument \<Rightarrow> string" where
  "toPropertyKey (IdString s) = s"
| "toPropertyKey (IdArray xs) = Array_toString xs"

fun removeTasks_loop ::
  "idArgument list \<Rightarrow> (string \<times> Task) list \<Rightarrow> bool \<Rightarrow> (string \<times> Task) list \<times> bool" where
  "removeTasks_loop [] ts changed = (ts, changed)"
| "removeTasks_loop (taskId # taskIds) ts changed =
     (case getProperty ts (toPropertyKey taskId) of
        Absent \<Rightarrow> removeTasks_loop taskIds ts changed
      | _ \<Rightarrow> removeTasks_loop taskIds (AList.delete (toPropertyKey taskId) ts) True)"

definition removeTasks :: "copy \<Rightarrow> heap \<Rightarrow> idArgument list \<Rightarrow> TaskList \<Rightarrow> bool \<times> TaskList" where
  "removeTasks cp h taskIds this =
     (let (ts, changed) = removeTasks_loop taskIds (tasks this) False
      in if changed then (True, organizeTasks cp h (this\<lparr>tasks := ts\<rparr>))
         else (False, this\<lparr>tasks := ts\<rparr>))"

subsection \<open>Queries\<close>

definition getNextTaskIds :: "TaskList \<Rightarrow> string list" where
  "getNextTaskIds this =
     (case timeline this of
        [] \<Rightarrow> []
      | output # _ \<Rightarrow> if length output > 0 then output else [])"

text \<open>
  The loop \<^verbatim>\<open>for (const id of ids) elements.push(this.#tasks[id].getCopy())\<close>: a read
  that finds no Task throws a TypeError at the call of \<^verbatim>\<open>getCopy\<close>.
\<close>

fun copyTasks :: "(string \<times> Task) list \<Rightarrow> string list \<Rightarrow> error + Task list" where
  "copyTasks ts [] = Inr []"
| "copyTasks ts (tid # ids) =
     (case getProperty ts tid of
        Own task \<Rightarrow>
          (case copyTasks ts ids of
             Inl e \<Rightarrow> Inl e
           | Inr elements \<Rightarrow> Inr (Task_getCopy task # elements))
      | _ \<Rightarrow> Inl TypeError)"

definition getTasks_timelineIndex :: "jsval \<Rightarrow> TaskList \<Rightarrow> error + Task list" where
  "getTasks_timelineIndex index this =
     (if \<not> Number_isInteger index then Inl TypeError
      else (case index of
              Number (Integral i) \<Rightarrow>
                if i < 0 \<or> i > int (timelineLength this) then Inl RangeError
                else if nat i < length (timeline this)
                     then copyTasks (tasks this) (timeline this ! nat i)
                     else Inr []
            | _ \<Rightarrow> Inl TypeError))"

definition getNextTasks :: "TaskList \<Rightarrow> error + Task list" where
  "getNextTasks this = getTasks_timelineIndex (Number (Integral 0)) this"

fun getTasks_id_loop :: "(string \<times> Task) list \<Rightarrow> string list \<Rightarrow> error + Task list" where
  "getTasks_id_loop ts [] = Inr []"
| "getTasks_id_loop ts (taskId # taskIds) =
     (case getProperty ts taskId of
        Absent \<Rightarrow> getTasks_id_loop ts taskIds
      | Own element \<Rightarrow>
          (case getTasks_id_loop ts taskIds of
             Inl e \<Rightarrow> Inl e
           | Inr output \<Rightarrow> Inr (Task_getCopy element # output))
      | Inherited \<Rightarrow> Inl TypeError)"

definition getTasks_id :: "string list \<Rightarrow> TaskList \<Rightarrow> error + Task list" where
  "getTasks_id taskIds this = getTasks_id_loop (tasks this) taskIds"

definition getTimelineCopy :: "TaskList \<Rightarrow> string list list" where
  "getTimelineCopy this = map (\<lambda>ids. ids) (timeline this)"

definition getTasksCopy :: "TaskList \<Rightarrow> (string \<times> Task) list" where
  "getTasksCopy this = map (\<lambda>(key, value). (key, Task_getCopy value)) (tasks this)"

definition getCopy :: "TaskList \<Rightarrow> TaskList" where
  "getCopy this = \<lparr>tasks = getTasksCopy this, timeline = getTimelineCopy this\<rparr>"

text \<open>
  \<^verbatim>\<open>findTasksByName\<close> with a string to search for. \<^verbatim>\<open>toLowerCase\<close> is modelled on
  ASCII letters. Both \<^verbatim>\<open>name.toLowerCase()\<close> and \<^verbatim>\<open>name.includes(...)\<close> throw a
  TypeError when the name is \<^verbatim>\<open>null\<close>.
\<close>

definition toLowerCase :: "string \<Rightarrow> string" where
  "toLowerCase s =
     map (\<lambda>c. if 65 \<le> (of_char c :: int) \<and> (of_char c :: int) \<le> 90
               then char_of ((of_char c :: int) + 32) else c) s"

fun String_includes :: "string \<Rightarrow> string \<Rightarrow> bool" where
  "String_includes [] searchVal = (searchVal = [])"
| "String_includes (c # cs) searchVal =
     (take (length searchVal) (c # cs) = searchVal \<or> String_includes cs searchVal)"

fun findTasksByName_loop ::
  "string \<Rightarrow> bool \<Rightarrow> Task list \<Rightarrow> (string \<times> Task) list \<Rightarrow> error + (string \<times> Task) list" where
  "findTasksByName_loop searchVal caseSensitive [] foundTasks = Inr foundTasks"
| "findTasksByName_loop searchVal caseSensitive (element # rest) foundTasks =
     (case t_name element of
        None \<Rightarrow> Inl TypeError
      | Some name \<Rightarrow>
          (let searchTarget = (if caseSensitive then name else toLowerCase name)
           in if String_includes searchTarget searchVal
              then findTasksByName_loop searchVal caseSensitive rest
                     (setProperty (t_id element) (Task_getCopy element) foundTasks)
              else findTasksByName_loop searchVal caseSensitive rest foundTasks))"

definition findTasksByName :: "copy \<Rightarrow> heap \<Rightarrow> string \<Rightarrow> bool \<Rightarrow> TaskList \<Rightarrow> error + TaskList" where
  "findTasksByName cp h taskName caseSensitive this =
     (let searchVal = (if caseSensitive then taskName else toLowerCase taskName)
      in case findTasksByName_loop searchVal caseSensitive (map snd (tasks this)) [] of
           Inl e \<Rightarrow> Inl e
         | Inr foundTasks \<Rightarrow>
             (let output = \<lparr>tasks = foundTasks, timeline = []\<rparr>
              in Inr (case cp of
                        TaskList_js \<Rightarrow> organizeTasks cp h output
                      | part_004 \<Rightarrow> output)))"

section \<open>Agenda (Agenda.js)\<close>

text \<open>
  The model follows \<^verbatim>\<open>src/src/Agenda.js\<close>, which tracks the ids of the next group.
  \<^verbatim>\<open>src/unnamed/part_002\<close> and \<^verbatim>\<open>part_003\<close> are copies that track copies of the tasks
  instead; \<^verbatim>\<open>removeTask\<close> and \<^verbatim>\<open>getNextExectutionTime\<close> read the same in all three.
  The payload functions are opaque, so the methods that run them (\<^verbatim>\<open>executeTaskNow\<close>,
  \<^verbatim>\<open>#executeTrackedTasks\<close>) are not part of the model.
\<close>

text \<open>
  The host's timers are seen through the calls made to them: \<^verbatim>\<open>setTimeout\<close> returns a
  new handle and is logged with its delay, \<^verbatim>\<open>clearTimeout\<close> is logged with the handle
  it cancels. A state of the scheduler is the Agenda object with this log.
\<close>

datatype timerCall = SetTimeout nat "int option" | ClearTimeout nat

definition setTimeout :: "timerCall list \<Rightarrow> int option \<Rightarrow> nat \<times> timerCall list" where
  "setTimeout tm delay = (Suc (length tm), tm @ [SetTimeout (Suc (length tm)) delay])"

definition clearTimeout :: "timerCall list \<Rightarrow> nat \<Rightarrow> timerCall list" where
  "clearTimeout tm timerId = tm @ [ClearTimeout timerId]"

record Agenda =
  taskList :: TaskList
  nextTasksIds :: "string list option"
  activeTimerId :: "nat option"
  nextExecutionTime :: "nat option"

definition Agenda_new :: Agenda where
  "Agenda_new =
     \<lparr>taskList = TaskList_empty, nextTasksIds = None, activeTimerId = None,
      nextExecutionTime = None\<rparr>"

definition setTaskTracker ::
  "int \<Rightarrow> heap \<Rightarrow> Agenda \<times> timerCall list \<Rightarrow> error + (Agenda \<times> timerCall list)" where
  "setTaskTracker now h s =
     (let this = fst s; tm = snd s;
          newNextTaskIds = getNextTaskIds (taskList this)
      in if length newNextTaskIds > 0
         then (case getTasks_id [newNextTaskIds ! 0] (taskList this) of
                 Inl e \<Rightarrow> Inl e
               | Inr [] \<Rightarrow> Inl TypeError
               | Inr (sampleTask # _) \<Rightarrow>
                   (let delay = getTimeTillExecution now h sampleTask;
                        (timerId, tm') = setTimeout tm delay
                    in Inr (this\<lparr>nextExecutionTime := Some (t_executionTime sampleTask),
                                 nextTasksIds := Some newNextTaskIds,
                                 activeTimerId := Some timerId\<rparr>, tm')))
         else Inr (this, tm))"

definition clearTaskTracker :: "Agenda \<times> timerCall list \<Rightarrow> Agenda \<times> timerCall list" where
  "clearTaskTracker s =
     (let this = (fst s)\<lparr>nextTasksIds := None, nextExecutionTime := None\<rparr>; tm = snd s
      in case activeTimerId this of
           Some timerId \<Rightarrow> (this\<lparr>activeTimerId := None\<rparr>, clearTimeout tm timerId)
         | None \<Rightarrow> (this, tm))"

definition checkTaskTracker ::
  "int \<Rightarrow> heap \<Rightarrow> Agenda \<times> timerCall list \<Rightarrow> error + (Agenda \<times> timerCall list)" where
  "checkTaskTracker now h s =
     (let ids_them = getNextTaskIds (taskList (fst s));
          ids_mine = (case nextTasksIds (fst s) of Some ids \<Rightarrow> ids | None \<Rightarrow> []);
          changed = (if length ids_mine = length ids_them
                     then list_ex (\<lambda>id_mine. \<not> List.member ids_them id_mine) ids_mine
                     else True)
      in if changed then setTaskTracker now h (clearTaskTracker s) else Inr s)"

text \<open>
  \<^verbatim>\<open>getNextExectutionTime\<close> returns \<^verbatim>\<open>new Date(this.#nextExecutionTime)\<close>: a new Date
  object with the time value of the tracked Date, and \<^verbatim>\<open>new Date(null)\<close> has the time
  value 0.
\<close>

definition getNextExectutionTime :: "heap \<Rightarrow> Agenda \<Rightarrow> jsval \<times> heap" where
  "getNextExectutionTime h this =
     (let (r, h') = new_Date h (case nextExecutionTime this of
                                  None \<Rightarrow> Some 0
                                | Some d \<Rightarrow> getTime h d)
      in (DateObject r, h'))"

definition getTaskCount :: "Agenda \<Rightarrow> nat" where
  "getTaskCount this = taskCount (taskList this)"

definition Agenda_addTasks ::
  "copy \<Rightarrow> int \<Rightarrow> heap \<Rightarrow> int list \<Rightarrow> argument list \<Rightarrow> Agenda \<times> timerCall list
     \<Rightarrow> (error + (nat \<times> Agenda \<times> timerCall list)) option" where
  "Agenda_addTasks cp now h rnd newTasks s =
     (case addTasks cp h rnd newTasks (taskList (fst s)) of
        None \<Rightarrow> None
      | Some (changed, tasklist) \<Rightarrow>
          Some (let s1 = ((fst s)\<lparr>taskList := tasklist\<rparr>, snd s)
                in if changed
                   then (case checkTaskTracker now h s1 of
                           Inl e \<Rightarrow> Inl e
                         | Inr s2 \<Rightarrow> Inr (getTaskCount (fst s2), s2))
                   else Inr (getTaskCount (fst s1), s1)))"

text \<open>
  \<^verbatim>\<open>removeTask(...taskIds)\<close> calls \<^verbatim>\<open>this.#taskList.removeTasks(taskIds)\<close>: one
  argument, the array itself.
\<close>

definition Agenda_removeTask ::
  "copy \<Rightarrow> int \<Rightarrow> heap \<Rightarrow> string list \<Rightarrow> Agenda \<times> timerCall list
     \<Rightarrow> error + (nat \<times> Agenda \<times> timerCall list)" where
  "Agenda_removeTask cp now h taskIds s =
     (let (changed, tasklist) = removeTasks cp h [IdArray taskIds] (taskList (fst s));
          s1 = ((fst s)\<lparr>taskList := tasklist\<rparr>, snd s)
      in if changed
         then (case checkTaskTracker now h s1 of
                 Inl e \<Rightarrow> Inl e
               | Inr s2 \<Rightarrow> Inr (getTaskCount (fst s2), s2))
         else Inr (getTaskCount (fst s1), s1))"

definition getTaskList :: "Agenda \<Rightarrow> TaskList" where
  "getTaskList this = getCopy (taskList this)"

section \<open>Sequences of calls and the properties of the timeline\<close>

text \<open>
  A call of \<^verbatim>\<open>addTasks\<close> or \<^verbatim>\<open>removeTasks\<close> comes with the heap of Dates at the time
  of the call (callers may have changed Dates in between), and \<^verbatim>\<open>addTasks\<close> with the
  numbers the random source returns during the call.
\<close>

datatype call = AddTasks heap "int list" "argument list" | RemoveTasks heap "idArgument list"

fun run :: "copy \<Rightarrow> call list \<Rightarrow> TaskList \<Rightarrow> TaskList option" where
  "run cp [] this = Some this"
| "run cp (AddTasks h rnd newTasks # calls) this =
     (case addTasks cp h rnd newTasks this of
        None \<Rightarrow> None
      | Some (changed, this') \<Rightarrow> run cp calls this')"
| "run cp (RemoveTasks h taskIds # calls) this =
     run cp calls (snd (removeTasks cp h taskIds this))"

text \<open>
  Every key of \<^verbatim>\<open>#tasks\<close> is the \<^verbatim>\<open>#id\<close> of the Task stored under it, and no key
  is there twice.
\<close>

definition idsConsistent :: "(string \<times> Task) list \<Rightarrow> bool" where
  "idsConsistent ts = (distinct (map fst ts) \<and> list_all (\<lambda>(key, task). t_id task = key) ts)"

text \<open>The ids of the timeline's groups are the stored ids, none of them twice.\<close>

definition timelinePartitions :: "TaskList \<Rightarrow> bool" where
  "timelinePartitions this =
     (set (concat (timeline this)) = set (map fst (tasks this))
      \<and> distinct (concat (timeline this)))"

definition groupsNonEmpty :: "TaskList \<Rightarrow> bool" where
  "groupsNonEmpty this = list_all (\<lambda>ids. ids \<noteq> []) (timeline this)"

text \<open>
  The order in which \<^verbatim>\<open>Math.min\<close> takes the keys of \<open>delays\<close>: NaN (the delay of
  a task with an Invalid Date) before every number, and the numbers ascending.
\<close>

fun delayBefore :: "int option \<Rightarrow> int option \<Rightarrow> bool" where
  "delayBefore None (Some b) = True"
| "delayBefore (Some a) (Some b) = (a < b)"
| "delayBefore _ None = False"

text \<open>
  The first id of \<^verbatim>\<open>getNextTaskIds()\<close>, if there is one, is a key of \<^verbatim>\<open>#tasks\<close>:
  what \<^verbatim>\<open>#setTaskTracker\<close> needs to find its sample task.
\<close>

definition nextGroupStored :: "TaskList \<Rightarrow> bool" where
  "nextGroupStored this =
     (case getNextTaskIds this of
        [] \<Rightarrow> True
      | taskId # _ \<Rightarrow> map_of (tasks this) taskId \<noteq> None)"

text \<open>
  The creation and execution Dates of every given task are at most \<open>2 ^ 53\<close> ms apart
  (or one of them is an Invalid Date): on such tasks the difference that \<open>taskDelay\<close>
  computes on integers is the one the source computes on doubles.
\<close>

definition exactDelays :: "heap \<Rightarrow> Task list \<Rightarrow> bool" where
  "exactDelays h ts =
     list_all (\<lambda>task.
        case js_minus (getTime h (t_executionTime task)) (getTime h (t_creationTime task)) of
          None \<Rightarrow> True
        | Some d \<Rightarrow> \<bar>d\<bar> \<le> 9007199254740992) ts"

text \<open>
  The spec's conditions on the first argument of the two constructors, in its own
  words: for \<^verbatim>\<open>createTaskWithExecutionDelay\<close> a non-negative integer, for
  \<^verbatim>\<open>createTaskWithExecutionTime\<close> a valid absolute-time value (a Date that is not an
  Invalid Date).
\<close>

definition spec_validAbsoluteTime :: "heap \<Rightarrow> jsval \<Rightarrow> bool" where
  "spec_validAbsoluteTime h v = (case v of DateObject r \<Rightarrow> getTime h r \<noteq> None | _ \<Rightarrow> False)"


definition spec_nonNegativeInteger :: "jsval \<Rightarrow> bool" where
  "spec_nonNegativeInteger v = (case v of Number (Integral i) \<Rightarrow> 0 \<le> i | _ \<Rightarrow> False)"

section \<open>Example values\<close>

text \<open>
  Two tasks made by \<^verbatim>\<open>createTaskWithExecutionDelay\<close> with the same delay of 2000 ms,
  the first at time 1000, the second at time 1500, and the heap holding their four
  Dates.
\<close>

definition ex_task1 :: Task where
  "ex_task1 = \<lparr>t_id = [], t_name = None, t_description = None, t_creationTime = 0,
               t_executionTime = 1, t_payloadFunction = 0, t_payloadArguments = []\<rparr>"

definition ex_task2 :: Task where
  "ex_task2 = \<lparr>t_id = [], t_name = None, t_description = None, t_creationTime = 2,
               t_executionTime = 3, t_payloadFunction = 0, t_payloadArguments = []\<rparr>"

definition ex_heap :: heap where
  "ex_heap = [Some 1000, Some 3000, Some 1500, Some 3500]"

text \<open>The TaskList after \<^verbatim>\<open>addTasks(ex_task1, ex_task2)\<close> with the random ids 1 and 2.\<close>

definition ex_list :: TaskList where
  "ex_list =
     \<lparr>tasks = [(''0000000001'', ex_task1\<lparr>t_id := ''0000000001''\<rparr>),
               (''0000000002'', ex_task2\<lparr>t_id := ''0000000002''\<rparr>)],
      timeline = [[''0000000001'', ''0000000002'']]\<rparr>"

text \<open>
  Two tasks made with the delays \<open>- 5\<close> and \<open>- 3\<close> at the times 1000 and 2000, and
  their heap.
\<close>

definition ex_past_heap :: heap where
  "ex_past_heap = [Some 1000, Some 995, Some 2000, Some 1997]"

text \<open>
  The scheduler after \<^verbatim>\<open>addTasks(ex_task1, ex_task2)\<close> at time 1000 on a new Agenda: both
  tasks are tracked, and one timer with the delay 2000 is live.
\<close>

definition ex_agenda :: "Agenda \<times> timerCall list" where
  "ex_agenda =
     (\<lparr>taskList = ex_list, nextTasksIds = Some [''0000000001'', ''0000000002''],
       activeTimerId = Some 1, nextExecutionTime = Some 1\<rparr>,
      [SetTimeout 1 (Some 2000)])"

text \<open>A sequence of calls on an empty TaskList, and the TaskList it ends in.\<close>

definition ex_calls :: "call list" where
  "ex_calls =
     [AddTasks ex_heap [1, 2] [TaskObject ex_task1, NotATask Null, TaskObject ex_task2],
      RemoveTasks ex_heap [IdString ''0000000001'', IdString ''abcdef0123''],
      AddTasks ex_heap [2, 2, 3] [TaskObject ex_task1]]"

definition ex_list2 :: TaskList where
  "ex_list2 =
     \<lparr>tasks = [(''0000000002'', ex_task2\<lparr>t_id := ''0000000002''\<rparr>),
               (''0000000003'', ex_task1\<lparr>t_id := ''0000000003''\<rparr>)],
      timeline = [[''0000000002'', ''0000000003'']]\<rparr>"

section \<open>The example values are what the code computes\<close>

lemma ex_task1_created:
  "createTaskWithExecutionDelay 1000 [] (Number (Integral 2000)) (FunctionObject 0) []
     = Inr (ex_task1, [Some 1000, Some 3000])"
  by (simp add: createTaskWithExecutionDelay_def Number_isInteger_def instanceof_Function_def
      new_Date_def getTime_def ex_task1_def)

lemma ex_task2_created:
  "createTaskWithExecutionDelay 1500 [Some 1000, Some 3000] (Number (Integral 2000))
     (FunctionObject 0) [] = Inr (ex_task2, ex_heap)"
  by (simp add: createTaskWithExecutionDelay_def Number_isInteger_def instanceof_Function_def
      new_Date_def getTime_def ex_task2_def ex_heap_def)

lemma ex_list_added:
  "addTasks cp ex_heap [1, 2] [TaskObject ex_task1, NotATask Null, TaskObject ex_task2]
     TaskList_empty = Some (True, ex_list)"
  by (cases cp; code_simp)

lemma TaskList_new_without_arguments: "TaskList_new cp h rnd [] = Some TaskList_empty"
  by (simp add: TaskList_new_def TaskList_empty_def taskCount_def)

lemma ex_calls_run: "run cp ex_calls TaskList_empty = Some ex_list2"
  by (cases cp; code_simp)

lemma ex_agenda_added:
  "Agenda_addTasks cp 1000 ex_heap [1, 2] [TaskObject ex_task1, NotATask Null, TaskObject ex_task2]
     (Agenda_new, []) = Some (Inr (2, ex_agenda))"
  by (cases cp; code_simp)

section \<open>The timeline holds every stored task once\<close>

text \<open>
  \<^verbatim>\<open>organizeTasks\<close> moves every id into \<open>delays\<close> once and every entry of
  \<open>delays\<close> into the new timeline once, so the ids of the new timeline are the
  \<^verbatim>\<open>getId()\<close> of the stored tasks, each as often as it is stored.
\<close>

lemma update_existing_concat:
  "map_of ds d = Some e \<Longrightarrow>
   mset (concat (map snd (AList.update d (e @ [x]) ds))) = add_mset x (mset (concat (map snd ds)))"
  by (induction ds) (auto split: if_splits)

lemma update_fresh_concat:
  "map_of ds d = None \<Longrightarrow>
   mset (concat (map snd (AList.update d [x] ds))) = add_mset x (mset (concat (map snd ds)))"
  by (induction ds) (auto split: if_splits)

lemma collectDelays_mset:
  "mset (concat (map snd (collectDelays cp h ts ds)))
     = mset (concat (map snd ds)) + mset (map t_id ts)"
  by (induction ts arbitrary: ds)
     (auto simp: Let_def update_existing_concat update_fresh_concat split: option.splits)

lemma collectDelays_distinct:
  "distinct (map fst ds) \<Longrightarrow> distinct (map fst (collectDelays cp h ts ds))"
  by (induction ts arbitrary: ds) (auto simp: Let_def distinct_update split: option.splits)

lemma delete_concat:
  "distinct (map fst ds) \<Longrightarrow> map_of ds k = Some v \<Longrightarrow>
   mset (concat (map snd ds)) = mset v + mset (concat (map snd (AList.delete k ds)))"
proof (induction ds)
  case Nil
  then show ?case by simp
next
  case (Cons p ds)
  show ?case
  proof (cases "fst p = k")
    case True
    with Cons.prems have "k \<notin> fst ` set ds" "snd p = v" by auto
    then show ?thesis using True by (cases p) (simp add: AList.delete_id)
  next
    case False
    with Cons show ?thesis by (cases p) auto
  qed
qed

lemma map_of_Math_min:
  "ds \<noteq> [] \<Longrightarrow> \<exists>ids. map_of ds (Math_min (map fst ds)) = Some ids"
proof -
  assume "ds \<noteq> []"
  then have "Math_min (map fst ds) \<in> fst ` set ds"
    using Math_min_in [of "map fst ds"] by simp
  then show ?thesis
    by (metis domD dom_map_of_conv_image_fst)
qed

lemma drainDelays_mset:
  "distinct (map fst ds) \<Longrightarrow>
   mset (concat (drainDelays ds acc)) = mset (concat acc) + mset (concat (map snd ds))"
proof (induction ds acc rule: drainDelays.induct)
  case (1 newTimeline)
  then show ?case by simp
next
  case (2 p ps newTimeline)
  define k where "k = Math_min (map fst (p # ps))"
  obtain ids where ids: "map_of (p # ps) k = Some ids"
    using map_of_Math_min [of "p # ps"] unfolding k_def by auto
  have d: "distinct (map fst (AList.delete k (p # ps)))"
    using "2.prems" by (rule distinct_delete)
  have split: "mset (concat (map snd (p # ps)))
      = mset ids + mset (concat (map snd (AList.delete k (p # ps))))"
    by (rule delete_concat [OF "2.prems" ids])
  have step: "drainDelays (p # ps) newTimeline
      = drainDelays (AList.delete k (p # ps))
          (if length ids > 0 then newTimeline @ [ids] else newTimeline)"
    using ids by (simp add: k_def Let_def del: AList.delete_simps map_of.simps)
  have "mset (concat (drainDelays (AList.delete k (p # ps))
          (if length ids > 0 then newTimeline @ [ids] else newTimeline)))
      = mset (concat (if length ids > 0 then newTimeline @ [ids] else newTimeline))
        + mset (concat (map snd (AList.delete k (p # ps))))"
    using "2.IH" [OF k_def d] ids by (simp del: AList.delete_simps map_of.simps)
  then show ?case
    unfolding step split by (auto simp del: AList.delete_simps map_of.simps)
qed

lemma organizeTasks_mset:
  "mset (concat (timeline (organizeTasks cp h this))) = mset (map t_id (map snd (tasks this)))"
  by (simp add: organizeTasks_def Let_def drainDelays_mset collectDelays_distinct collectDelays_mset)

lemma drainDelays_nonempty:
  "list_all (\<lambda>g. g \<noteq> []) acc \<Longrightarrow> list_all (\<lambda>g. g \<noteq> []) (drainDelays ds acc)"
proof (induction ds acc rule: drainDelays.induct)
  case (1 newTimeline)
  then show ?case by simp
next
  case (2 p ps newTimeline)
  define k where "k = Math_min (map fst (p # ps))"
  have "list_all (\<lambda>g. g \<noteq> [])
     (case map_of (p # ps) k of None \<Rightarrow> newTimeline
      | Some ids \<Rightarrow> if 0 < length ids then newTimeline @ [ids] else newTimeline)"
    using "2.prems" by (auto split: option.splits)
  from "2.IH" [OF k_def this] show ?case
    by (simp add: k_def Let_def del: AList.delete_simps map_of.simps)
qed


lemma insertIndex_mset: "mset (insertIndex n k v ps) = add_mset (k, v) (mset ps)"
  by (induction ps) (auto split: option.splits)

lemma setProperty_mset:
  "map_of ps k = None \<Longrightarrow> mset (setProperty k v ps) = add_mset (k, v) (mset ps)"
  by (simp add: setProperty_def insertIndex_mset split: option.splits)

lemma generateUniqueID_fresh:
  "generateUniqueID ts rnd = Some (newId, rnd') \<Longrightarrow> newId \<notin> fst ` set ts"
  by (induction rnd) (auto simp: Let_def split: if_splits)

lemma generateUniqueID_returns:
  "r \<in> set rnd \<Longrightarrow> randomBytes_hex r \<notin> fst ` set ts \<Longrightarrow>
   \<exists>newId rnd'. generateUniqueID ts rnd = Some (newId, rnd')"
  by (induction rnd) (auto simp: Let_def)

lemma idsConsistent_mset:
  "mset ts' = mset ts \<Longrightarrow> idsConsistent ts' = idsConsistent ts"
proof -
  assume m: "mset ts' = mset ts"
  then have "mset (map fst ts') = mset (map fst ts)" by (metis mset_map)
  then have "distinct (map fst ts') = distinct (map fst ts)"
    by (rule mset_eq_imp_distinct_iff)
  moreover have "set ts' = set ts" using m by (rule mset_eq_setD)
  ultimately show ?thesis by (simp add: idsConsistent_def list_all_iff)
qed

lemma addTask_prv_consistent:
  assumes "idsConsistent ts" "addTask_prv rnd newTask ts = Some (ts', rnd')"
  shows "idsConsistent ts'"
proof -
  from assms(2) obtain newId where g: "generateUniqueID ts rnd = Some (newId, rnd')"
    and ts': "ts' = setProperty newId (setId newId (Task_getCopy newTask)) ts"
    by (auto simp: addTask_prv_def Let_def split: option.splits)
  have fresh: "newId \<notin> fst ` set ts" by (rule generateUniqueID_fresh [OF g])
  then have "map_of ts newId = None" by (simp add: map_of_eq_None_iff)
  then have "mset ts' = mset ((newId, setId newId (Task_getCopy newTask)) # ts)"
    unfolding ts' by (simp add: setProperty_mset)
  then have "idsConsistent ts' = idsConsistent ((newId, setId newId (Task_getCopy newTask)) # ts)"
    by (rule idsConsistent_mset)
  also have "\<dots>" using assms(1) fresh by (simp add: idsConsistent_def setId_def)
  finally show ?thesis .
qed

lemma addTasks_loop_consistent:
  "idsConsistent ts \<Longrightarrow> addTasks_loop rnd newTasks ts changed = Some (ts', changed')
   \<Longrightarrow> idsConsistent ts'"
proof (induction rnd newTasks ts changed rule: addTasks_loop.induct)
  case (3 rnd newTask newTasks ts changed)
  then show ?case
    by (auto split: option.splits dest: addTask_prv_consistent)
qed auto

lemma addTasks_loop_changed:
  "addTasks_loop rnd newTasks ts changed = Some (ts', changed') \<Longrightarrow>
   (changed \<longrightarrow> changed') \<and> (\<not> changed' \<longrightarrow> ts' = ts)"
  by (induction rnd newTasks ts changed rule: addTasks_loop.induct) (auto split: option.splits)

lemma addTasks_loop_unchanged:
  "addTasks_loop rnd newTasks ts changed = Some (ts', False) \<Longrightarrow> ts' = ts"
  using addTasks_loop_changed by blast

lemma delete_consistent: "idsConsistent ts \<Longrightarrow> idsConsistent (AList.delete k ts)"
proof -
  assume c: "idsConsistent ts"
  then have "distinct (map fst (AList.delete k ts))"
    by (simp add: idsConsistent_def distinct_delete)
  moreover have "set (AList.delete k ts) \<subseteq> set ts"
    by (auto simp: AList.delete_eq)
  ultimately show ?thesis
    using c unfolding idsConsistent_def list_all_iff by blast
qed

lemma removeTasks_loop_consistent:
  "idsConsistent ts \<Longrightarrow> removeTasks_loop taskIds ts changed = (ts', changed')
   \<Longrightarrow> idsConsistent ts'"
proof (induction taskIds ts changed rule: removeTasks_loop.induct)
  case (2 taskId taskIds ts changed)
  then show ?case
    by (auto split: property.splits dest: delete_consistent)
qed auto

lemma removeTasks_loop_changed:
  "removeTasks_loop taskIds ts changed = (ts', changed') \<Longrightarrow>
   (changed \<longrightarrow> changed') \<and> (\<not> changed' \<longrightarrow> ts' = ts)"
  by (induction taskIds ts changed rule: removeTasks_loop.induct) (auto split: property.splits)

lemma removeTasks_loop_unchanged:
  "removeTasks_loop taskIds ts changed = (ts', False) \<Longrightarrow> ts' = ts"
  using removeTasks_loop_changed by blast

lemma organizeTasks_tasks [simp]: "tasks (organizeTasks cp h this) = tasks this"
  by (simp add: organizeTasks_def Let_def)

lemma consistent_ids: "idsConsistent ts \<Longrightarrow> map t_id (map snd ts) = map fst ts"
  by (induction ts) (auto simp: idsConsistent_def)

lemma organizeTasks_partitions:
  assumes "idsConsistent (tasks this)"
  shows "timelinePartitions (organizeTasks cp h this)"
proof -
  have m: "mset (concat (timeline (organizeTasks cp h this))) = mset (map fst (tasks this))"
    unfolding organizeTasks_mset consistent_ids [OF assms] ..
  have "set (concat (timeline (organizeTasks cp h this))) = set (map fst (tasks this))"
    using m by (rule mset_eq_setD)
  moreover have "distinct (concat (timeline (organizeTasks cp h this)))"
    using mset_eq_imp_distinct_iff [OF m] assms by (simp add: idsConsistent_def)
  ultimately show ?thesis by (simp add: timelinePartitions_def)
qed

lemma organizeTasks_groupsNonEmpty: "groupsNonEmpty (organizeTasks cp h this)"
  by (simp add: groupsNonEmpty_def organizeTasks_def Let_def drainDelays_nonempty)


lemma addTasks_invariant:
  assumes "idsConsistent (tasks this)" "timelinePartitions this"
    and "addTasks cp h rnd newTasks this = Some (changed, this')"
  shows "idsConsistent (tasks this') \<and> timelinePartitions this'"
proof -
  from assms(3) obtain ts c where l: "addTasks_loop rnd newTasks (tasks this) False = Some (ts, c)"
    and r: "(changed, this') = (if c then (True, organizeTasks cp h (this\<lparr>tasks := ts\<rparr>))
                                else (False, this\<lparr>tasks := ts\<rparr>))"
    by (auto simp: addTasks_def split: option.splits if_splits)
  have cons: "idsConsistent ts" by (rule addTasks_loop_consistent [OF assms(1) l])
  show ?thesis
  proof (cases c)
    case True
    with r have "this' = organizeTasks cp h (this\<lparr>tasks := ts\<rparr>)" by simp
    then show ?thesis using cons organizeTasks_partitions [of "this\<lparr>tasks := ts\<rparr>" cp h] by simp
  next
    case False
    with l have "ts = tasks this" by (auto dest: addTasks_loop_unchanged)
    with r False have "this' = this" by simp
    then show ?thesis using assms by simp
  qed
qed

lemma removeTasks_invariant:
  assumes "idsConsistent (tasks this)" "timelinePartitions this"
  shows "idsConsistent (tasks (snd (removeTasks cp h taskIds this)))
         \<and> timelinePartitions (snd (removeTasks cp h taskIds this))"
proof -
  obtain ts c where l: "removeTasks_loop taskIds (tasks this) False = (ts, c)"
    by (cases "removeTasks_loop taskIds (tasks this) False")
  have cons: "idsConsistent ts" by (rule removeTasks_loop_consistent [OF assms(1) l])
  show ?thesis
  proof (cases c)
    case True
    with l have "snd (removeTasks cp h taskIds this) = organizeTasks cp h (this\<lparr>tasks := ts\<rparr>)"
      by (simp add: removeTasks_def)
    then show ?thesis using cons organizeTasks_partitions [of "this\<lparr>tasks := ts\<rparr>" cp h] by simp
  next
    case False
    with l have "ts = tasks this" by (auto dest: removeTasks_loop_unchanged)
    with l False have "snd (removeTasks cp h taskIds this) = this" by (simp add: removeTasks_def)
    then show ?thesis using assms by simp
  qed
qed

lemma run_invariant:
  "idsConsistent (tasks this) \<Longrightarrow> timelinePartitions this \<Longrightarrow> run cp calls this = Some this'
   \<Longrightarrow> idsConsistent (tasks this') \<and> timelinePartitions this'"
proof (induction cp calls this rule: run.induct)
  case (1 cp this)
  then show ?case by simp
next
  case (2 cp h rnd newTasks calls this)
  from "2.prems"(3) obtain changed this1 where
    a: "addTasks cp h rnd newTasks this = Some (changed, this1)"
    and r: "run cp calls this1 = Some this'"
    by (auto split: option.splits)
  have "idsConsistent (tasks this1) \<and> timelinePartitions this1"
    by (rule addTasks_invariant [OF "2.prems"(1,2) a])
  then show ?case using "2.IH" [OF a refl] r by blast
next
  case (3 cp h taskIds calls this)
  have "idsConsistent (tasks (snd (removeTasks cp h taskIds this)))
         \<and> timelinePartitions (snd (removeTasks cp h taskIds this))"
    by (rule removeTasks_invariant [OF "3.prems"(1,2)])
  then show ?case using "3.IH" "3.prems"(3) by simp
qed

lemma distinct_concat_unique_group:
  "distinct (concat xss) \<Longrightarrow> i < length xss \<Longrightarrow> j < length xss \<Longrightarrow>
   x \<in> set (xss ! i) \<Longrightarrow> x \<in> set (xss ! j) \<Longrightarrow> i = j"
proof (induction xss arbitrary: i j)
  case Nil
  then show ?case by simp
next
  case (Cons xs xss)
  show ?case
  proof (cases i)
    case 0
    show ?thesis
    proof (cases j)
      case 0
      with \<open>i = 0\<close> show ?thesis by simp
    next
      case (Suc j')
      with Cons.prems \<open>i = 0\<close> have "x \<in> set xs" "x \<in> set (concat xss)"
        by (auto intro: nth_mem)
      with Cons.prems(1) show ?thesis by auto
    qed
  next
    case (Suc i')
    show ?thesis
    proof (cases j)
      case 0
      with Cons.prems Suc have "x \<in> set xs" "x \<in> set (concat xss)"
        by (auto intro: nth_mem)
      with Cons.prems(1) show ?thesis by auto
    next
      case (Suc j')
      with Cons.prems \<open>i = Suc i'\<close> have "i' = j'"
        using Cons.IH [of i' j'] by simp
      with Suc \<open>i = Suc i'\<close> show ?thesis by simp
    qed
  qed
qed

text \<open>
  C1. Whatever calls of \<^verbatim>\<open>addTasks\<close> and \<^verbatim>\<open>removeTasks\<close> an empty TaskList has gone
  through (in either copy of the file), the ids of its timeline are exactly the keys of
  \<^verbatim>\<open>#tasks\<close>, no id is in the timeline twice, and so every stored id is in exactly one
  group.
\<close>

theorem timeline_partitions_stored_ids:
  assumes "run cp calls TaskList_empty = Some this"
  shows "set (concat (timeline this)) = fst ` set (tasks this)
         \<and> distinct (concat (timeline this))
         \<and> (\<forall>k \<in> fst ` set (tasks this).
               \<exists>!i. i < length (timeline this) \<and> k \<in> set (timeline this ! i))"
proof -
  have "idsConsistent (tasks TaskList_empty)" "timelinePartitions TaskList_empty"
    by (simp_all add: idsConsistent_def timelinePartitions_def TaskList_empty_def)
  from run_invariant [OF this assms] have p: "timelinePartitions this" ..
  then have s: "set (concat (timeline this)) = fst ` set (tasks this)"
    and d: "distinct (concat (timeline this))"
    by (simp_all add: timelinePartitions_def)
  have "\<exists>!i. i < length (timeline this) \<and> k \<in> set (timeline this ! i)"
    if "k \<in> fst ` set (tasks this)" for k
  proof -
    from that s have "k \<in> set (concat (timeline this))" by simp
    then obtain g where "g \<in> set (timeline this)" "k \<in> set g" by auto
    then obtain i where "i < length (timeline this)" "k \<in> set (timeline this ! i)"
      by (auto simp: in_set_conv_nth)
    then show ?thesis
      using distinct_concat_unique_group [OF d] by blast
  qed
  with s d show ?thesis by blast
qed


theorem timeline_partitions_stored_ids_witness:
  "run part_004 ex_calls TaskList_empty = Some ex_list2
   \<and> set (concat (timeline ex_list2)) = fst ` set (tasks ex_list2)
   \<and> distinct (concat (timeline ex_list2))
   \<and> concat (timeline ex_list2) = [''0000000002'', ''0000000003'']"
  using timeline_partitions_stored_ids [OF ex_calls_run [of part_004]]
  by (simp add: ex_calls_run ex_list2_def)

section \<open>No group of the timeline is empty\<close>

lemma getNextTaskIds_nonempty_iff:
  "groupsNonEmpty this \<Longrightarrow> (getNextTaskIds this \<noteq> []) = (timeline this \<noteq> [])"
  by (cases "timeline this") (auto simp: getNextTaskIds_def groupsNonEmpty_def)

lemma addTasks_groupsNonEmpty:
  assumes "groupsNonEmpty this" "addTasks cp h rnd newTasks this = Some (changed, this')"
  shows "groupsNonEmpty this'"
proof -
  from assms(2) obtain ts c where l: "addTasks_loop rnd newTasks (tasks this) False = Some (ts, c)"
    and r: "this' = (if c then organizeTasks cp h (this\<lparr>tasks := ts\<rparr>) else this\<lparr>tasks := ts\<rparr>)"
    by (auto simp: addTasks_def split: option.splits if_splits)
  show ?thesis
    using assms(1) r by (cases c) (simp_all add: organizeTasks_groupsNonEmpty [unfolded groupsNonEmpty_def] groupsNonEmpty_def)
qed

lemma removeTasks_groupsNonEmpty:
  assumes "groupsNonEmpty this"
  shows "groupsNonEmpty (snd (removeTasks cp h taskIds this))"
proof -
  obtain ts c where l: "removeTasks_loop taskIds (tasks this) False = (ts, c)"
    by (cases "removeTasks_loop taskIds (tasks this) False")
  show ?thesis
    using assms l
    by (cases c) (simp_all add: removeTasks_def organizeTasks_groupsNonEmpty [unfolded groupsNonEmpty_def] groupsNonEmpty_def)
qed

lemma TaskList_new_groupsNonEmpty:
  "TaskList_new cp h rnd newTasks = Some this \<Longrightarrow> groupsNonEmpty this"
  by (auto simp: TaskList_new_def Let_def organizeTasks_groupsNonEmpty [unfolded groupsNonEmpty_def] groupsNonEmpty_def
      split: option.splits if_splits)

text \<open>
  C10. The timeline of a new TaskList has no empty group, and \<^verbatim>\<open>addTasks\<close>,
  \<^verbatim>\<open>removeTasks\<close> and \<^verbatim>\<open>organizeTasks\<close> keep it so; on such a TaskList
  \<^verbatim>\<open>getNextTaskIds()\<close> returns a non-empty array exactly when the timeline is not
  empty.
\<close>

theorem timeline_groups_non_empty:
  assumes "groupsNonEmpty this"
  shows "groupsNonEmpty TaskList_empty
     \<and> (TaskList_new cp h rnd newTasks = Some new \<longrightarrow> groupsNonEmpty new)
     \<and> (addTasks cp h rnd newTasks this = Some (changed, this') \<longrightarrow> groupsNonEmpty this')
     \<and> groupsNonEmpty (snd (removeTasks cp h taskIds this))
     \<and> groupsNonEmpty (organizeTasks cp h this)
     \<and> ((getNextTaskIds this \<noteq> []) = (timeline this \<noteq> []))"
  using assms addTasks_groupsNonEmpty [OF assms] removeTasks_groupsNonEmpty [OF assms]
    TaskList_new_groupsNonEmpty organizeTasks_groupsNonEmpty getNextTaskIds_nonempty_iff [OF assms]
  by (simp add: groupsNonEmpty_def TaskList_empty_def)

lemma ex_list_groupsNonEmpty: "groupsNonEmpty ex_list"
  by (simp add: groupsNonEmpty_def ex_list_def)

lemma ex_list_more:
  "addTasks part_004 ex_heap [2, 2, 3] [TaskObject ex_task1] ex_list = Some (True,
     \<lparr>tasks = [(''0000000001'', ex_task1\<lparr>t_id := ''0000000001''\<rparr>),
               (''0000000002'', ex_task2\<lparr>t_id := ''0000000002''\<rparr>),
               (''0000000003'', ex_task1\<lparr>t_id := ''0000000003''\<rparr>)],
      timeline = [[''0000000001'', ''0000000002'', ''0000000003'']]\<rparr>)"
  by code_simp

lemma ex_list_removed:
  "removeTasks part_004 ex_heap [IdString ''0000000001'', IdString ''0000000002''] ex_list
     = (True, \<lparr>tasks = [], timeline = []\<rparr>)"
  by code_simp

theorem timeline_groups_non_empty_witness:
  "groupsNonEmpty ex_list
   \<and> groupsNonEmpty (snd (removeTasks part_004 ex_heap
        [IdString ''0000000001'', IdString ''0000000002''] ex_list))
   \<and> getNextTaskIds (snd (removeTasks part_004 ex_heap
        [IdString ''0000000001'', IdString ''0000000002''] ex_list)) = []
   \<and> getNextTaskIds ex_list = [''0000000001'', ''0000000002'']
   \<and> timeline ex_list \<noteq> []"
  using timeline_groups_non_empty [OF ex_list_groupsNonEmpty, of part_004 ex_heap
      "[2, 2, 3]" "[TaskObject ex_task1]" undefined True undefined
      "[IdString ''0000000001'', IdString ''0000000002'']"]
  by (simp add: ex_list_groupsNonEmpty ex_list_removed getNextTaskIds_def) (simp add: ex_list_def)


section \<open>The tracking check\<close>

lemma setTaskTracker_tracks:
  assumes "setTaskTracker now h s = Inr s1"
  shows "taskList (fst s1) = taskList (fst s)
     \<and> (if getNextTaskIds (taskList (fst s)) = []
         then s1 = s
         else nextTasksIds (fst s1) = Some (getNextTaskIds (taskList (fst s))))"
  using assms
  by (cases s; cases s1)
     (auto simp: setTaskTracker_def Let_def setTimeout_def split: if_splits sum.splits list.splits)

lemma clearTaskTracker_cleared:
  "taskList (fst (clearTaskTracker s)) = taskList (fst s)
   \<and> nextTasksIds (fst (clearTaskTracker s)) = None"
  by (cases s) (auto simp: clearTaskTracker_def Let_def split: option.splits)

lemma checkTaskTracker_unchanged:
  "(case nextTasksIds (fst s) of Some ids \<Rightarrow> ids | None \<Rightarrow> []) = getNextTaskIds (taskList (fst s))
   \<Longrightarrow> checkTaskTracker now h s = Inr s"
  by (simp add: checkTaskTracker_def Let_def list_ex_iff)

lemma checkTaskTracker_settles:
  assumes "checkTaskTracker now h s = Inr s1"
  shows "checkTaskTracker now' h' s1 = Inr s1"
proof -
  define ids_them where "ids_them = getNextTaskIds (taskList (fst s))"
  define ids_mine where "ids_mine = (case nextTasksIds (fst s) of Some ids \<Rightarrow> ids | None \<Rightarrow> [])"
  define changed where "changed =
    (if length ids_mine = length ids_them
     then list_ex (\<lambda>id_mine. \<not> List.member ids_them id_mine) ids_mine else True)"
  have unfold: "checkTaskTracker n g s =
      (if changed then setTaskTracker n g (clearTaskTracker s) else Inr s)" for n g
    by (simp add: checkTaskTracker_def Let_def changed_def ids_mine_def ids_them_def)
  show ?thesis
  proof (cases changed)
    case False
    with assms unfold have "s1 = s" by simp
    with False unfold show ?thesis by simp
  next
    case True
    with assms unfold have st: "setTaskTracker now h (clearTaskTracker s) = Inr s1" by simp
    note tr = setTaskTracker_tracks [OF st] and cl = clearTaskTracker_cleared [of s]
    show ?thesis
    proof (cases "getNextTaskIds (taskList (fst s)) = []")
      case True
      with tr cl have "s1 = clearTaskTracker s" by simp
      with cl True show ?thesis by (intro checkTaskTracker_unchanged) simp
    next
      case False
      with tr cl show ?thesis by (intro checkTaskTracker_unchanged) simp
    qed
  qed
qed

lemma timelinePartitions_nextGroupStored:
  "timelinePartitions this \<Longrightarrow> nextGroupStored this"
proof -
  assume p: "timelinePartitions this"
  show ?thesis
  proof (cases "getNextTaskIds this")
    case Nil
    then show ?thesis by (simp add: nextGroupStored_def)
  next
    case (Cons taskId ids)
    then have "taskId \<in> set (concat (timeline this))"
      by (cases "timeline this") (auto simp: getNextTaskIds_def split: if_splits)
    with p have "taskId \<in> fst ` set (tasks this)" by (simp add: timelinePartitions_def)
    then show ?thesis using Cons by (simp add: nextGroupStored_def map_of_eq_None_iff)
  qed
qed

lemma setTaskTracker_returns:
  assumes "nextGroupStored (taskList (fst s))"
  shows "\<exists>s1. setTaskTracker now h s = Inr s1"
proof (cases "getNextTaskIds (taskList (fst s))")
  case Nil
  then show ?thesis by (simp add: setTaskTracker_def Let_def)
next
  case (Cons taskId ids)
  with assms obtain t where "map_of (tasks (taskList (fst s))) taskId = Some t"
    by (auto simp: nextGroupStored_def)
  with Cons show ?thesis
    by (simp add: setTaskTracker_def Let_def getTasks_id_def getProperty_def setTimeout_def)
qed

lemma checkTaskTracker_returns:
  assumes "nextGroupStored (taskList (fst s))"
  shows "\<exists>s1. checkTaskTracker now h s = Inr s1"
proof -
  have "nextGroupStored (taskList (fst (clearTaskTracker s)))"
    using assms clearTaskTracker_cleared [of s] by simp
  from setTaskTracker_returns [OF this] show ?thesis
    by (simp add: checkTaskTracker_def Let_def)
qed

text \<open>
  C4. A second run of \<^verbatim>\<open>#checkTaskTracker\<close> right after a first one that returned
  changes nothing, at whatever time it runs: the state it returns is the state it
  started in, with the same tracked ids, the same tracked Date, the same timer handle
  and not one more call of \<^verbatim>\<open>clearTimeout\<close> or \<^verbatim>\<open>setTimeout\<close>. And the first run
  returns (it does not throw) whenever the timeline holds the stored ids, as it does
  after every call of \<^verbatim>\<open>addTasks\<close> and \<^verbatim>\<open>removeTasks\<close>.
\<close>

theorem checkTaskTracker_idempotent:
  "(checkTaskTracker now h s = Inr s1 \<longrightarrow> checkTaskTracker now' h' s1 = Inr s1)
   \<and> (timelinePartitions (taskList (fst s)) \<longrightarrow> (\<exists>s2. checkTaskTracker now h s = Inr s2))"
  using checkTaskTracker_settles checkTaskTracker_returns timelinePartitions_nextGroupStored
  by blast

lemma ex_check:
  "checkTaskTracker 1000 ex_heap (Agenda_new\<lparr>taskList := ex_list\<rparr>, []) = Inr ex_agenda"
  by code_simp

theorem checkTaskTracker_idempotent_witness:
  "checkTaskTracker 1000 ex_heap (Agenda_new\<lparr>taskList := ex_list\<rparr>, []) = Inr ex_agenda
   \<and> checkTaskTracker 1700 ex_heap ex_agenda = Inr ex_agenda
   \<and> snd ex_agenda = [SetTimeout 1 (Some 2000)]"
  using checkTaskTracker_idempotent [of 1000 ex_heap "(Agenda_new\<lparr>taskList := ex_list\<rparr>, [])"
      ex_agenda 1700 ex_heap] ex_check
  by (simp add: ex_agenda_def)

section \<open>removeTask with several ids\<close>

text \<open>
  C3. \<^verbatim>\<open>Agenda.removeTask("0000000001", "0000000002")\<close> on the scheduler holding these
  two tasks: the array of the two ids is passed on as one argument, its key
  \<^verbatim>\<open>"0000000001,0000000002"\<close> is no key of \<^verbatim>\<open>#tasks\<close>, nothing is removed, and the
  count returned is 2. With one id the task is removed.
\<close>

theorem removeTask_two_ids_removes_nothing:
  "Agenda_removeTask cp 1200 ex_heap [''0000000001'', ''0000000002''] ex_agenda
     = Inr (2, ex_agenda)"
  by (cases cp; code_simp)

lemma removeTask_one_id:
  "Agenda_removeTask cp 1200 ex_heap [''0000000001''] ex_agenda
     = Inr (1, \<lparr>taskList = \<lparr>tasks = [(''0000000002'', ex_task2\<lparr>t_id := ''0000000002''\<rparr>)],
                              timeline = [[''0000000002'']]\<rparr>,
                 nextTasksIds = Some [''0000000002''], activeTimerId = Some 3,
                 nextExecutionTime = Some 3\<rparr>,
               [SetTimeout 1 (Some 2000), ClearTimeout 1, SetTimeout 3 (Some 2300)])"
  by (cases cp; code_simp)

section \<open>Access to a group by its index\<close>

lemma getTasks_timelineIndex_RangeError:
  "(getTasks_timelineIndex (Number (Integral i)) this = Inl RangeError)
     = (i < 0 \<or> int (timelineLength this) < i)"
proof -
  have "copyTasks ts ids \<noteq> Inl RangeError" for ts ids
    by (induction ids) (auto split: property.splits sum.splits)
  then show ?thesis
    by (auto simp: getTasks_timelineIndex_def Number_isInteger_def)
qed

text \<open>
  C5. The guard is \<^verbatim>\<open>index < 0 || index > this.timelineLength()\<close>: the index equal to
  the length of the timeline passes it, \<^verbatim>\<open>this.#timeline[index]\<close> is \<^verbatim>\<open>undefined\<close>
  there, and the call returns an empty array. On an empty TaskList this is the index 0
  of \<^verbatim>\<open>getNextTasks()\<close>.
\<close>

theorem timelineIndex_equal_to_length_returns:
  "getTasks_timelineIndex (Number (Integral (int (timelineLength this)))) this = Inr []"
  by (simp add: getTasks_timelineIndex_def Number_isInteger_def timelineLength_def)

lemma getNextTasks_empty: "getNextTasks TaskList_empty = Inr []"
  by (simp add: getNextTasks_def getTasks_timelineIndex_def Number_isInteger_def
      timelineLength_def TaskList_empty_def)

section \<open>Copies of a Task share its Dates\<close>

text \<open>
  C6. \<^verbatim>\<open>getTasks_id("0000000001")\<close> returns a copy of the stored task that holds the
  stored task's own Date objects. \<^verbatim>\<open>copy.getCreationTime().setTime(0)\<close> changes the
  creation time that the next \<^verbatim>\<open>getTasks_id("0000000001")\<close> reports from 1000 to 0.
\<close>

theorem returned_task_shares_its_Dates:
  "getTasks_id [''0000000001''] ex_list = Inr [ex_task1\<lparr>t_id := ''0000000001''\<rparr>]
   \<and> getTime ex_heap (t_creationTime (ex_task1\<lparr>t_id := ''0000000001''\<rparr>)) = Some 1000
   \<and> (case getTasks_id [''0000000001''] ex_list of
         Inr returned \<Rightarrow>
           (let h' = setTime ex_heap (t_creationTime (hd returned)) 0
            in case getTasks_id [''0000000001''] ex_list of
                 Inr again \<Rightarrow> getTime h' (t_creationTime (hd again))
               | Inl e \<Rightarrow> None)
       | Inl e \<Rightarrow> None) = Some 0"
  by code_simp

text \<open>
  The other queries hand out the same Date objects: the tasks they return hold the
  addresses 0 to 3 of the stored tasks' Dates.
\<close>

lemma queries_return_stored_Dates:
  "getNextTasks ex_list
     = Inr [ex_task1\<lparr>t_id := ''0000000001''\<rparr>, ex_task2\<lparr>t_id := ''0000000002''\<rparr>]
   \<and> getTasks_timelineIndex (Number (Integral 0)) ex_list
     = Inr [ex_task1\<lparr>t_id := ''0000000001''\<rparr>, ex_task2\<lparr>t_id := ''0000000002''\<rparr>]
   \<and> getTaskList (fst ex_agenda) = ex_list
   \<and> map (\<lambda>(key, task). (t_creationTime task, t_executionTime task)) (tasks ex_list)
     = [(0, 1), (2, 3)]"
  by code_simp

section \<open>getNextExectutionTime\<close>

text \<open>
  C7. On a new Agenda, which tracks nothing, \<^verbatim>\<open>getNextExectutionTime()\<close> returns a new
  Date object with the time value 0 (1 January 1970), not \<^verbatim>\<open>null\<close> or
  \<^verbatim>\<open>undefined\<close>. When a Date is tracked it returns a new Date with that time value.
\<close>

theorem getNextExectutionTime_untracked:
  "getNextExectutionTime h Agenda_new = (DateObject (length h), h @ [Some 0])"
  by (simp add: getNextExectutionTime_def Agenda_new_def new_Date_def)

lemma getNextExectutionTime_tracked:
  "nextExecutionTime this = Some d \<Longrightarrow>
   getNextExectutionTime h this = (DateObject (length h), h @ [TimeClip (getTime h d)])"
  by (simp add: getNextExectutionTime_def new_Date_def)

section \<open>Search by name\<close>

lemma findTasksByName_loop_unnamed:
  "list_ex (\<lambda>t. t_name t = None) ts \<Longrightarrow>
   findTasksByName_loop searchVal caseSensitive ts foundTasks = Inl TypeError"
  by (induction ts arbitrary: foundTasks) (auto simp: Let_def split: option.splits)

lemma findTasksByName_unnamed:
  "list_ex (\<lambda>t. t_name t = None) (map snd (tasks this)) \<Longrightarrow>
   findTasksByName cp h taskName caseSensitive this = Inl TypeError"
  by (simp add: findTasksByName_def Let_def findTasksByName_loop_unnamed)

text \<open>
  C9. The tasks of \<open>ex_list\<close> were never named. \<^verbatim>\<open>findTasksByName\<close> on it throws a
  TypeError for every search string, case-sensitive or not, in both copies of the file.
\<close>

theorem findTasksByName_unnamed_task_throws:
  "findTasksByName cp h taskName caseSensitive ex_list = Inl TypeError"
  by (rule findTasksByName_unnamed) (simp add: ex_list_def ex_task1_def)

section \<open>Construction of a Task\<close>

text \<open>
  C8, as the code has it. \<^verbatim>\<open>createTaskWithExecutionTime\<close> throws (a TypeError) exactly
  when the time is not a Date object or the function is not a function object;
  \<^verbatim>\<open>createTaskWithExecutionDelay\<close> throws exactly when the delay is not an integer or
  the function is not a function object; otherwise they return a Task. So a negative
  integer delay is accepted, and so is an Invalid Date, which is a Date object.
\<close>

theorem createTask_throws_iff:
  "(isl (createTaskWithExecutionTime now h executionTime executionFunction executionArguments)
      = (\<not> instanceof_Date executionTime \<or> \<not> instanceof_Function executionFunction))
   \<and> (isl (createTaskWithExecutionDelay now h executionDelay executionFunction executionArguments)
      = (\<not> Number_isInteger executionDelay \<or> \<not> instanceof_Function executionFunction))
   \<and> createTaskWithExecutionTime now h executionTime executionFunction executionArguments
        \<noteq> Inl RangeError
   \<and> createTaskWithExecutionDelay now h executionDelay executionFunction executionArguments
        \<noteq> Inl RangeError"
  by (auto simp: createTaskWithExecutionTime_def createTaskWithExecutionDelay_def
      instanceof_Date_def instanceof_Function_def Number_isInteger_def new_Date_def
      split: jsval.splits number.splits prod.splits)

theorem createTask_throws_iff_witness:
  "isl (createTaskWithExecutionTime 1000 [] (Str ''tomorrow'') (FunctionObject 0) [])
   \<and> isl (createTaskWithExecutionTime 1000 [None] (DateObject 0) Null [])
   \<and> createTaskWithExecutionTime 1000 [None] (DateObject 0) (FunctionObject 0) []
       = Inr (\<lparr>t_id = [], t_name = None, t_description = None, t_creationTime = 1,
                t_executionTime = 0, t_payloadFunction = 0, t_payloadArguments = []\<rparr>,
              [None, Some 1000])
   \<and> isl (createTaskWithExecutionDelay 1000 [] (Number NonInteger) (FunctionObject 0) [])
   \<and> isl (createTaskWithExecutionDelay 1000 [] (Number (Integral 5)) (Str ''f'') [])
   \<and> createTaskWithExecutionDelay 1000 [] (Number (Integral (- 5))) (FunctionObject 0) []
       = Inr (\<lparr>t_id = [], t_name = None, t_description = None, t_creationTime = 0,
                t_executionTime = 1, t_payloadFunction = 0, t_payloadArguments = []\<rparr>,
              [Some 1000, Some 995])"
  using createTask_throws_iff [of 1000 "[]" "Str ''tomorrow''" "FunctionObject 0" "[]"
      "Number NonInteger"]
    createTask_throws_iff [of 1000 "[None]" "DateObject 0" Null "[]" "Number (Integral 5)"]
    createTask_throws_iff [of 1000 "[]" "DateObject 0" "Str ''f''" "[]" "Number (Integral 5)"]
  by (simp add: instanceof_Date_def instanceof_Function_def Number_isInteger_def
      createTaskWithExecutionTime_def createTaskWithExecutionDelay_def new_Date_def getTime_def)

text \<open>
  C8 as the spec states it fails in both modes. The delay \<open>- 5\<close> is not a non-negative
  integer, the function is callable, and \<^verbatim>\<open>createTaskWithExecutionDelay\<close> does not
  throw. An Invalid Date (the Date at address 0 of the heap \<open>[None]\<close>) is not a valid
  absolute-time value, the function is callable, and \<^verbatim>\<open>createTaskWithExecutionTime\<close> does
  not throw.
\<close>

theorem negative_delay_and_Invalid_Date_are_accepted:
  "\<not> (isl (createTaskWithExecutionDelay 1000 [] (Number (Integral (- 5))) (FunctionObject 0) [])
       = (\<not> spec_nonNegativeInteger (Number (Integral (- 5)))
          \<or> \<not> instanceof_Function (FunctionObject 0)))
   \<and> \<not> (isl (createTaskWithExecutionTime 1000 [None] (DateObject 0) (FunctionObject 0) [])
       = (\<not> spec_validAbsoluteTime [None] (DateObject 0)
          \<or> \<not> instanceof_Function (FunctionObject 0)))"
  by (simp add: createTaskWithExecutionDelay_def createTaskWithExecutionTime_def
      Number_isInteger_def instanceof_Function_def instanceof_Date_def
      spec_nonNegativeInteger_def spec_validAbsoluteTime_def new_Date_def getTime_def)

text \<open>
  What a delay gives: the execution Date holds the creation time plus the delay, or is
  an Invalid Date when that sum is out of the range of a Date (as for the delay
  \<open>- 10 ^ 16\<close>).
\<close>

lemma createTaskWithExecutionDelay_times:
  "createTaskWithExecutionDelay now h (Number (Integral d)) (FunctionObject f) args
     = Inr (task, h') \<Longrightarrow>
   getTime h' (t_creationTime task) = TimeClip (Some now)
   \<and> getTime h' (t_executionTime task)
       = TimeClip (js_plus (TimeClip (Some now)) (Some d))"
  by (auto simp: createTaskWithExecutionDelay_def Number_isInteger_def instanceof_Function_def
      new_Date_def getTime_def nth_append)

lemma huge_negative_delay_gives_Invalid_Date:
  "createTaskWithExecutionDelay 1000 [] (Number (Integral (- 10000000000000000)))
     (FunctionObject 0) [] = Inr (ex_task1, [Some 1000, None])"
  by (simp add: createTaskWithExecutionDelay_def Number_isInteger_def instanceof_Function_def
      new_Date_def getTime_def ex_task1_def)

section \<open>Groups by delay, in ascending order\<close>

lemma delayBefore_irrefl [simp]: "\<not> delayBefore d d"
  by (cases d) auto

lemma delayBefore_asym: "delayBefore a b \<Longrightarrow> \<not> delayBefore b a"
  by (cases a; cases b) auto

lemma Math_min_least:
  "ks \<noteq> [] \<Longrightarrow> k \<in> set ks \<Longrightarrow> k = Math_min ks \<or> delayBefore (Math_min ks) k"
proof (induction ks rule: Math_min.induct)
  case (1 x)
  then show ?case by simp
next
  case (2 x y ys)
  show ?case
  proof (cases "k \<in> set (y # ys)")
    case True
    with "2.IH" have "k = Math_min (y # ys) \<or> delayBefore (Math_min (y # ys)) k" by simp
    then show ?thesis
      by (cases x; cases "Math_min (y # ys)"; cases k) (auto simp: min_def)
  next
    case False
    with "2.prems" have "k = x" by simp
    then show ?thesis
      by (cases x; cases "Math_min (y # ys)") (auto simp: min_def)
  qed
next
  case 3
  then show ?case by simp
qed

lemma collectDelays_lookup:
  "map_of (collectDelays cp h ts ds) d =
     (let new = map t_id (filter (\<lambda>t. taskDelay cp h t = d) ts)
      in case map_of ds d of
           None \<Rightarrow> if new = [] then None else Some new
         | Some e \<Rightarrow> Some (e @ new))"
proof (induction ts arbitrary: ds)
  case Nil
  then show ?case by (simp split: option.splits)
next
  case (Cons t ts)
  show ?case
  proof (cases "map_of ds (taskDelay cp h t)")
    case None
    then show ?thesis
      by (cases "taskDelay cp h t = d")
         (auto simp: Cons.IH Let_def update_conv' split: option.splits)
  next
    case (Some e)
    then show ?thesis
      by (cases "taskDelay cp h t = d")
         (auto simp: Cons.IH Let_def update_conv' split: option.splits)
  qed
qed

lemma delete_mset:
  "distinct (map fst ds) \<Longrightarrow> map_of ds k = Some v \<Longrightarrow>
   mset ds = add_mset (k, v) (mset (AList.delete k ds))"
proof (induction ds)
  case Nil
  then show ?case by simp
next
  case (Cons p ds)
  show ?case
  proof (cases "fst p = k")
    case True
    with Cons.prems have "k \<notin> fst ` set ds" "snd p = v" by auto
    then show ?thesis using True by (cases p) (simp add: AList.delete_id)
  next
    case False
    with Cons show ?thesis by (cases p) auto
  qed
qed

lemma drainDelays_sorted:
  "distinct (map fst ds) \<Longrightarrow>
   \<exists>ds'. drainDelays ds acc = acc @ map snd ds'
     \<and> mset ds' = mset (filter (\<lambda>p. snd p \<noteq> []) ds)
     \<and> sorted_wrt delayBefore (map fst ds')"
proof (induction ds acc rule: drainDelays.induct)
  case (1 newTimeline)
  show ?case by (rule exI [of _ "[]"]) simp
next
  case (2 p ps newTimeline)
  define k where "k = Math_min (map fst (p # ps))"
  obtain ids where ids: "map_of (p # ps) k = Some ids"
    using map_of_Math_min [of "p # ps"] unfolding k_def by auto
  define rest where "rest = AList.delete k (p # ps)"
  define acc' where "acc' = (if length ids > 0 then newTimeline @ [ids] else newTimeline)"
  have d: "distinct (map fst rest)"
    unfolding rest_def using "2.prems" by (rule distinct_delete)
  have step: "drainDelays (p # ps) newTimeline = drainDelays rest acc'"
    using ids by (simp add: k_def rest_def acc'_def Let_def del: AList.delete_simps map_of.simps)
  have "\<exists>ds'. drainDelays rest acc' = acc' @ map snd ds'
     \<and> mset ds' = mset (filter (\<lambda>p. snd p \<noteq> []) rest)
     \<and> sorted_wrt delayBefore (map fst ds')"
    using "2.IH" [OF k_def d [unfolded rest_def]] ids
    by (simp add: rest_def acc'_def del: AList.delete_simps map_of.simps)
  then obtain ds'' where r: "drainDelays rest acc' = acc' @ map snd ds''"
    and m: "mset ds'' = mset (filter (\<lambda>p. snd p \<noteq> []) rest)"
    and s: "sorted_wrt delayBefore (map fst ds'')"
    by blast
  have split: "mset (p # ps) = add_mset (k, ids) (mset rest)"
    unfolding rest_def by (rule delete_mset [OF "2.prems" ids])
  have least: "delayBefore k k'" if "k' \<in> fst ` set ds''" for k'
  proof -
    from that m have "k' \<in> fst ` set rest"
      by (metis (no_types, lifting) filter_is_subset image_mono mset_eq_setD set_filter subsetD
          set_mset_mset)
    then have "k' \<in> set (map fst (p # ps))" "k' \<noteq> k"
      unfolding rest_def using delete_notin_dom [of k "p # ps"] dom_delete_subset [of k "p # ps"]
      by auto
    then show ?thesis
      using Math_min_least [of "map fst (p # ps)" k'] unfolding k_def by auto
  qed
  show ?case
  proof (cases "ids = []")
    case True
    have "mset ds'' = mset (filter (\<lambda>p. snd p \<noteq> []) (p # ps))"
      using m True split
      by (metis (mono_tags, lifting) filter_mset_add_mset mset_filter snd_conv)
    with r s step True show ?thesis
      by (intro exI [of _ ds'']) (simp add: acc'_def)
  next
    case False
    have "mset ((k, ids) # ds'') = mset (filter (\<lambda>p. snd p \<noteq> []) (p # ps))"
      using m False split
      by (metis (mono_tags, lifting) filter_mset_add_mset mset.simps(2) mset_filter snd_conv)
    moreover have "sorted_wrt delayBefore (map fst ((k, ids) # ds''))"
      using s least by auto
    moreover have "drainDelays (p # ps) newTimeline = newTimeline @ map snd ((k, ids) # ds'')"
      using r step False by (simp add: acc'_def)
    ultimately show ?thesis by blast
  qed
qed


lemma idsConsistent_inj:
  assumes "idsConsistent ts" "a \<in> snd ` set ts" "b \<in> snd ` set ts" "t_id a = t_id b"
  shows "a = b"
proof -
  from assms(2,3) obtain k k' where "(k, a) \<in> set ts" "(k', b) \<in> set ts" by force
  moreover from this assms(1) have "t_id a = k" "t_id b = k'"
    by (auto simp: idsConsistent_def list_all_iff)
  ultimately show ?thesis
    using assms(1,4) by (auto simp: idsConsistent_def dest: eq_key_imp_eq_value)
qed

lemma organizeTasks_sorted_groups:
  assumes "exactDelays h (map snd (tasks this))"
  shows "\<exists>ds'. timeline (organizeTasks cp h this) = map snd ds'
     \<and> sorted_wrt delayBefore (map fst ds')
     \<and> (\<forall>p \<in> set ds'. snd p =
           map t_id (filter (\<lambda>t. taskDelay cp h t = fst p) (map snd (tasks this))))"
proof -
  define D where "D = collectDelays cp h (map snd (tasks this)) []"
  have dist: "distinct (map fst D)"
    unfolding D_def by (rule collectDelays_distinct) simp
  from drainDelays_sorted [OF dist, of "[]"] obtain ds' where
    t: "drainDelays D [] = map snd ds'"
    and m: "mset ds' = mset (filter (\<lambda>p. snd p \<noteq> []) D)"
    and s: "sorted_wrt delayBefore (map fst ds')"
    by auto
  have "snd p = map t_id (filter (\<lambda>t. taskDelay cp h t = fst p) (map snd (tasks this)))"
    if "p \<in> set ds'" for p
  proof -
    from that m have "p \<in> set D"
      by (metis (no_types, lifting) filter_is_subset mset_eq_setD subsetD)
    with dist have "map_of D (fst p) = Some (snd p)" by simp
    then show ?thesis
      unfolding D_def collectDelays_lookup by (simp add: Let_def split: if_splits)
  qed
  with t s show ?thesis
    by (auto simp: organizeTasks_def Let_def D_def)
qed

text \<open>
  After \<^verbatim>\<open>organizeTasks\<close> on tasks whose Dates are at most \<open>2 ^ 53\<close> ms apart (where
  the integer difference is the source's), two stored tasks are in the same group
  exactly when their delays are equal, and the group of the one comes first exactly when its delay is the
  smaller (or is NaN and the other's is not). The delay is the one of the copy of the
  file: the clamped difference in \<^verbatim>\<open>part_004\<close>, the difference itself in
  \<^verbatim>\<open>src/src/TaskList.js\<close>.
\<close>

lemma organizeTasks_groups_by_delay:
  assumes c: "idsConsistent (tasks this)"
    and x: "exactDelays h (map snd (tasks this))"
    and a: "a \<in> snd ` set (tasks this)" and b: "b \<in> snd ` set (tasks this)"
    and i: "i < length (timeline (organizeTasks cp h this))"
           "t_id a \<in> set (timeline (organizeTasks cp h this) ! i)"
    and j: "j < length (timeline (organizeTasks cp h this))"
           "t_id b \<in> set (timeline (organizeTasks cp h this) ! j)"
  shows "(i = j) = (taskDelay cp h a = taskDelay cp h b)
     \<and> (i < j) = delayBefore (taskDelay cp h a) (taskDelay cp h b)"
proof -
  from organizeTasks_sorted_groups [OF x, of cp] obtain ds' where
    t: "timeline (organizeTasks cp h this) = map snd ds'"
    and s: "sorted_wrt delayBefore (map fst ds')"
    and g: "\<forall>p \<in> set ds'. snd p =
           map t_id (filter (\<lambda>t. taskDelay cp h t = fst p) (map snd (tasks this)))"
    by blast
  have key: "taskDelay cp h x = fst (ds' ! n)"
    if "x \<in> snd ` set (tasks this)" "n < length ds'" "t_id x \<in> set (snd (ds' ! n))" for x n
  proof -
    from that(2) g have "snd (ds' ! n) =
        map t_id (filter (\<lambda>t. taskDelay cp h t = fst (ds' ! n)) (map snd (tasks this)))"
      by simp
    with that(3) have "t_id x \<in> t_id `
        {t \<in> snd ` set (tasks this). taskDelay cp h t = fst (ds' ! n)}"
      by auto
    then obtain x' where eq: "t_id x = t_id x'"
      and mem: "x' \<in> {t \<in> snd ` set (tasks this). taskDelay cp h t = fst (ds' ! n)}"
      by (rule imageE)
    from mem have x': "x' \<in> snd ` set (tasks this)" "taskDelay cp h x' = fst (ds' ! n)"
      by simp_all
    have "x = x'" by (rule idsConsistent_inj [OF c that(1) x'(1) eq])
    with x'(2) show ?thesis by simp
  qed
  have da: "taskDelay cp h a = fst (ds' ! i)" using key [OF a] i t by simp
  have db: "taskDelay cp h b = fst (ds' ! j)" using key [OF b] j t by simp
  have li: "i < length (map fst ds')" and lj: "j < length (map fst ds')" using i j t by simp_all
  have lt: "delayBefore (map fst ds' ! m) (map fst ds' ! n)"
    if "m < n" "n < length (map fst ds')" for m n
    using sorted_wrt_nth_less [OF s that] .
  have "i = j" if "taskDelay cp h a = taskDelay cp h b"
  proof (rule ccontr)
    assume "i \<noteq> j"
    then consider "i < j" | "j < i" by linarith
    then show False
      using lt [of i j] lt [of j i] li lj that da db by cases auto
  qed
  moreover have "i < j" if "delayBefore (taskDelay cp h a) (taskDelay cp h b)"
  proof (rule ccontr)
    assume "\<not> i < j"
    then consider "i = j" | "j < i" by linarith
    then show False
      using lt [of j i] li lj that da db by cases (auto dest: delayBefore_asym)
  qed
  moreover have "delayBefore (taskDelay cp h a) (taskDelay cp h b)" if "i < j"
    using lt [OF that lj] li lj da db by simp
  ultimately show ?thesis using da db by auto
qed


lemma ex_task1_created_in_the_past:
  "createTaskWithExecutionDelay 1000 [] (Number (Integral (- 5))) (FunctionObject 0) []
     = Inr (ex_task1, [Some 1000, Some 995])"
  by (simp add: createTaskWithExecutionDelay_def Number_isInteger_def instanceof_Function_def
      new_Date_def getTime_def ex_task1_def)

lemma ex_task2_created_in_the_past:
  "createTaskWithExecutionDelay 2000 [Some 1000, Some 995] (Number (Integral (- 3)))
     (FunctionObject 0) [] = Inr (ex_task2, ex_past_heap)"
  by (simp add: createTaskWithExecutionDelay_def Number_isInteger_def instanceof_Function_def
      new_Date_def getTime_def ex_task2_def ex_past_heap_def)

lemma part_004_groups_past_tasks:
  "addTasks part_004 ex_past_heap [1, 2] [TaskObject ex_task1, TaskObject ex_task2]
     TaskList_empty = Some (True, ex_list)"
  by code_simp

text \<open>
  C2. Two tasks made with the delays \<open>- 5\<close> and \<open>- 3\<close>: clamped to 0 their delays are
  equal, and \<^verbatim>\<open>organizeTasks\<close> of \<^verbatim>\<open>src/src/TaskList.js\<close>, which does not clamp, puts
  them into two groups. (The copy \<^verbatim>\<open>part_004\<close> puts them into one.)
\<close>

theorem unclamped_organizeTasks_splits_equal_clamped_delays:
  "addTasks TaskList_js ex_past_heap [1, 2] [TaskObject ex_task1, TaskObject ex_task2]
     TaskList_empty
   = Some (True, ex_list\<lparr>timeline := [[''0000000001''], [''0000000002'']]\<rparr>)
   \<and> Math_max (js_minus (getTime ex_past_heap (t_executionTime ex_task1))
                        (getTime ex_past_heap (t_creationTime ex_task1))) (Some 0) = Some 0
   \<and> Math_max (js_minus (getTime ex_past_heap (t_executionTime ex_task2))
                        (getTime ex_past_heap (t_creationTime ex_task2))) (Some 0) = Some 0"
  by code_simp

end
